theory Spec2Isabelle
  imports Main "HOL-Library.Word"
begin

unbundle bit_operations_syntax

section \<open>Data model\<close>

text \<open>
  The eight channel states of \<^verbatim>\<open>enum rgb_colour\<close>, in the order of their
  numeric values 0..7. The specification calls \<open>DARK\<close> Closed, the five colours
  \<open>BLUE\<close>..\<open>MAGENTA\<close> the data symbols D0..D4, \<open>WHITE\<close> Mark1 and
  \<open>YELLOW\<close> Mark2.
\<close>

datatype rgb_colour = DARK | BLUE | GREEN | CYAN | RED | MAGENTA | YELLOW | WHITE

type_synonym u8 = "8 word"

section \<open>Encoder\<close>

text \<open>
  The \<^verbatim>\<open>switch (previous_colour)\<close> that both \<^verbatim>\<open>nextColourSeq_from_2bit\<close>
  and \<^verbatim>\<open>nextColourSeq_to_2bit\<close> open with (the source repeats it literally in
  the two functions). The offsets are at most 5, so the C types
  (\<^verbatim>\<open>unsigned int\<close> in the encoder, \<^verbatim>\<open>uint8_t\<close> in the decoder) hold them
  exactly and they are kept as mathematical integers.
\<close>

fun find_offset :: "rgb_colour \<Rightarrow> int" where
  "find_offset DARK = 0"
| "find_offset BLUE = 1"
| "find_offset GREEN = 2"
| "find_offset CYAN = 3"
| "find_offset RED = 4"
| "find_offset MAGENTA = 5"
| "find_offset YELLOW = 0"
| "find_offset WHITE = 0"

text \<open>The local table of the five data colours.\<close>

definition halfByteColour :: "rgb_colour list" where
  "halfByteColour = [BLUE, GREEN, CYAN, RED, MAGENTA]"

text \<open>
  The index \<^verbatim>\<open>(halfnibble + offset) % 5\<close> computed after the guard
  \<^verbatim>\<open>halfnibble = halfnibble & 0x03\<close>. The sum is at most 8, so the unsigned
  arithmetic of C cannot wrap.
\<close>

definition colour_index :: "u8 \<Rightarrow> rgb_colour \<Rightarrow> nat" where
  "colour_index halfnibble previous_colour =
     nat ((uint (halfnibble AND 3) + find_offset previous_colour) mod 5)"

definition nextColourSeq_from_2bit :: "u8 \<Rightarrow> rgb_colour \<Rightarrow> rgb_colour" where
  "nextColourSeq_from_2bit halfnibble previous_colour =
     halfByteColour ! colour_index halfnibble previous_colour"

section \<open>Decoder of one transition\<close>

text \<open>
  The \<^verbatim>\<open>switch (incoming_colour)\<close>: three colours return at once (\<open>Inl\<close> of the
  return code), the five data colours set \<^verbatim>\<open>nibblebase\<close> (\<open>Inr\<close>).
\<close>

fun nibblebase_of :: "rgb_colour \<Rightarrow> int + int" where
  "nibblebase_of DARK = Inl (- 2)"
| "nibblebase_of BLUE = Inr 0"
| "nibblebase_of GREEN = Inr 1"
| "nibblebase_of CYAN = Inr 2"
| "nibblebase_of RED = Inr 3"
| "nibblebase_of MAGENTA = Inr 4"
| "nibblebase_of YELLOW = Inl 2"
| "nibblebase_of WHITE = Inl 1"

text \<open>
  \<^verbatim>\<open>nextColourSeq_to_2bit\<close> returns its code and writes through
  \<^verbatim>\<open>halfnibble_out\<close> only on the path that returns 0. The result is the pair of
  the return code and the value stored (\<open>None\<close> when nothing is stored). In both
  branches of the subtraction the left operand is not below the right one, so the
  remainder of C is the \<open>mod\<close> of HOL.
\<close>

definition nextColourSeq_to_2bit :: "rgb_colour \<Rightarrow> rgb_colour \<Rightarrow> int \<times> u8 option" where
  "nextColourSeq_to_2bit incoming_colour previous_colour =
     (if incoming_colour = previous_colour then (- 1, None)
      else
        let offset = find_offset previous_colour in
        case nibblebase_of incoming_colour of
          Inl return_code \<Rightarrow> (return_code, None)
        | Inr nibblebase \<Rightarrow>
            let halfnibble :: u8 =
                  (if nibblebase \<ge> offset
                   then word_of_int ((nibblebase - offset) mod 4)
                   else word_of_int ((5 + nibblebase - offset) mod 4))
            in (0, Some (halfnibble AND 3)))"

section \<open>The colour sequence\<close>

text \<open>
  \<^verbatim>\<open>colourSeq\<close> is the caller's array and \<^verbatim>\<open>*seq_ptr\<close> an \<^verbatim>\<open>int\<close> index
  into it. The array is a list whose length is its capacity (100 in \<^verbatim>\<open>main\<close>).
  C gives no meaning to an access outside the array, so a read or write at an index
  outside \<open>0 ..< length colourSeq\<close> is the result \<open>None\<close> of the whole call. The
  index is a mathematical integer: it is only ever incremented next to an access that
  is inside the array, so it stays far from the limits of \<^verbatim>\<open>int\<close>.
\<close>

definition read_seq :: "rgb_colour list \<Rightarrow> int \<Rightarrow> rgb_colour option" where
  "read_seq colourSeq i =
     (if 0 \<le> i \<and> i < int (length colourSeq) then Some (colourSeq ! nat i) else None)"

definition write_seq :: "rgb_colour list \<Rightarrow> int \<Rightarrow> rgb_colour \<Rightarrow> rgb_colour list option" where
  "write_seq colourSeq i c =
     (if 0 \<le> i \<and> i < int (length colourSeq) then Some (colourSeq[nat i := c]) else None)"

text \<open>
  \<^verbatim>\<open>previous_colour = (j == 0) ? DARK : colourSeq[j - 1]\<close>, the first statement of
  both byte-level functions.
\<close>

definition initial_previous :: "rgb_colour list \<Rightarrow> int \<Rightarrow> rgb_colour option" where
  "initial_previous colourSeq j = (if j = 0 then Some DARK else read_seq colourSeq (j - 1))"

section \<open>Encoder of one byte\<close>

text \<open>
  The \<^verbatim>\<open>for (int i = 0; i < 4; i++)\<close> loop of \<^verbatim>\<open>toColourSeq_uint8\<close>. The first
  argument counts the iterations still to run: with \<open>Suc n\<close> left the loop variable is
  \<open>i = 3 - n\<close>, so the shift \<^verbatim>\<open>2 * (3 - i)\<close> is \<open>2 * n\<close>. After the store
  \<^verbatim>\<open>previous_colour = colourSeq[j]\<close> reads back the colour just written.
\<close>

fun toColourSeq_loop ::
  "nat \<Rightarrow> u8 \<Rightarrow> rgb_colour list \<Rightarrow> rgb_colour \<Rightarrow> int \<Rightarrow> (rgb_colour list \<times> int) option" where
  "toColourSeq_loop 0 input colourSeq previous_colour j = Some (colourSeq, j)"
| "toColourSeq_loop (Suc n) input colourSeq previous_colour j =
     (let half_nibble = drop_bit (2 * n) input AND 3;
          c = nextColourSeq_from_2bit half_nibble previous_colour
      in case write_seq colourSeq j c of
           None \<Rightarrow> None
         | Some colourSeq' \<Rightarrow> toColourSeq_loop n input colourSeq' c (j + 1))"

text \<open>The result is the array and \<^verbatim>\<open>*seq_ptr\<close> after the call.\<close>

definition toColourSeq_uint8 ::
  "u8 \<Rightarrow> rgb_colour list \<Rightarrow> int \<Rightarrow> (rgb_colour list \<times> int) option" where
  "toColourSeq_uint8 input colourSeq seq_ptr =
     (case initial_previous colourSeq seq_ptr of
        None \<Rightarrow> None
      | Some previous_colour \<Rightarrow>
          (case toColourSeq_loop 4 input colourSeq previous_colour seq_ptr of
             None \<Rightarrow> None
           | Some (colourSeq', j) \<Rightarrow>
               (case write_seq colourSeq' j WHITE of
                  None \<Rightarrow> None
                | Some colourSeq'' \<Rightarrow> Some (colourSeq'', j + 1))))"

section \<open>Decoder of one byte\<close>

text \<open>
  The \<^verbatim>\<open>for (int i = 0; i < 5; i++)\<close> loop of \<^verbatim>\<open>fromColourSeq_get_uint8\<close>; the
  first argument counts the iterations still to run. The result is the triple of the
  return value, \<^verbatim>\<open>*seq_ptr\<close> and \<^verbatim>\<open>*output\<close>. The shift \<^verbatim>\<open>*output << 2\<close> is
  stored back into a \<^verbatim>\<open>uint8_t\<close>, which drops the bits above the eighth. A return
  code matching no \<^verbatim>\<open>case\<close> label leaves the \<^verbatim>\<open>switch\<close> and the loop goes on.
\<close>

fun fromColourSeq_loop ::
  "nat \<Rightarrow> rgb_colour list \<Rightarrow> rgb_colour \<Rightarrow> int \<Rightarrow> u8 \<Rightarrow> (int \<times> int \<times> u8) option" where
  "fromColourSeq_loop 0 colourSeq previous_colour seq_ptr output = Some (0, seq_ptr, output)"
| "fromColourSeq_loop (Suc n) colourSeq previous_colour seq_ptr output =
     (case read_seq colourSeq seq_ptr of
        None \<Rightarrow> None
      | Some incoming_colour \<Rightarrow>
          (case nextColourSeq_to_2bit incoming_colour previous_colour of
             (return_code, halfnibble_out) \<Rightarrow>
               if return_code = 2 then Some (1, seq_ptr + 1, output)
               else if return_code = 1 then Some (1, seq_ptr + 1, output)
               else if return_code = 0 then
                 (case halfnibble_out of
                    None \<Rightarrow> None
                  | Some h \<Rightarrow>
                      fromColourSeq_loop n colourSeq incoming_colour (seq_ptr + 1)
                        (push_bit 2 output OR h))
               else if return_code = - 1 then
                 fromColourSeq_loop n colourSeq incoming_colour (seq_ptr + 1) output
               else if return_code = - 2 then Some (- 1, seq_ptr + 1, output)
               else fromColourSeq_loop n colourSeq incoming_colour (seq_ptr + 1) output))"

definition fromColourSeq_get_uint8 ::
  "rgb_colour list \<Rightarrow> int \<Rightarrow> (int \<times> int \<times> u8) option" where
  "fromColourSeq_get_uint8 colourSeq seq_ptr =
     (case initial_previous colourSeq seq_ptr of
        None \<Rightarrow> None
      | Some previous_colour \<Rightarrow> fromColourSeq_loop 5 colourSeq previous_colour seq_ptr 0)"

section \<open>Sequences of calls\<close>

text \<open>
  \<^verbatim>\<open>main\<close> encodes a text by calling \<^verbatim>\<open>toColourSeq_uint8\<close> once per byte on the
  same array and index, then decodes by calling \<^verbatim>\<open>fromColourSeq_get_uint8\<close>
  repeatedly on a second index that starts at 0. The two functions below are these
  sequences of calls; the second records the result of every call.
\<close>

fun toColourSeq_bytes ::
  "u8 list \<Rightarrow> rgb_colour list \<Rightarrow> int \<Rightarrow> (rgb_colour list \<times> int) option" where
  "toColourSeq_bytes [] colourSeq j = Some (colourSeq, j)"
| "toColourSeq_bytes (b # bs) colourSeq j =
     (case toColourSeq_uint8 b colourSeq j of
        None \<Rightarrow> None
      | Some (colourSeq', j') \<Rightarrow> toColourSeq_bytes bs colourSeq' j')"

fun fromColourSeq_bytes ::
  "nat \<Rightarrow> rgb_colour list \<Rightarrow> int \<Rightarrow> (int \<times> int \<times> u8) list option" where
  "fromColourSeq_bytes 0 colourSeq k = Some []"
| "fromColourSeq_bytes (Suc n) colourSeq k =
     (case fromColourSeq_get_uint8 colourSeq k of
        None \<Rightarrow> None
      | Some (r, k', out) \<Rightarrow>
          (case fromColourSeq_bytes n colourSeq k' of
             None \<Rightarrow> None
           | Some rs \<Rightarrow> Some ((r, k', out) # rs)))"

section \<open>The code of the transition into a position\<close>

text \<open>
  The return code \<^verbatim>\<open>fromColourSeq_get_uint8\<close> obtains from
  \<^verbatim>\<open>nextColourSeq_to_2bit\<close> when its index stands at position \<open>i\<close>: the incoming
  colour is \<^verbatim>\<open>colourSeq[i]\<close> and the previous colour is \<^verbatim>\<open>colourSeq[i - 1]\<close>,
  or Dark at position 0. It is \<open>None\<close> when a position involved is outside the array.
\<close>

definition transition_code :: "rgb_colour list \<Rightarrow> int \<Rightarrow> int option" where
  "transition_code colourSeq i =
     (case initial_previous colourSeq i of
        None \<Rightarrow> None
      | Some previous_colour \<Rightarrow>
          (case read_seq colourSeq i of
             None \<Rightarrow> None
           | Some incoming_colour \<Rightarrow>
               Some (fst (nextColourSeq_to_2bit incoming_colour previous_colour))))"

section \<open>Facts about the two-bit guard\<close>

lemma and3_mod4: "(h::u8) AND 3 = h mod 4"
proof -
  have "(3::u8) = mask 2"
    by (simp add: mask_eq_exp_minus_1)
  then have "h AND 3 = take_bit 2 h"
    by (simp add: take_bit_eq_mask)
  then show ?thesis
    by (simp add: take_bit_eq_mod)
qed

lemma and3_cases: "(h::u8) AND 3 = 0 \<or> h AND 3 = 1 \<or> h AND 3 = 2 \<or> h AND 3 = 3"
proof -
  have "unat (h AND 3) \<le> unat (3::u8)"
    by (rule word_and_le1 [THEN word_le_nat_alt [THEN iffD1]])
  then have "unat (h AND 3) \<le> 3"
    by simp
  then have "unat (h AND 3) = 0 \<or> unat (h AND 3) = 1
      \<or> unat (h AND 3) = 2 \<or> unat (h AND 3) = 3"
    by arith
  moreover have "h AND 3 = of_nat (unat (h AND 3))"
    by simp
  ultimately show ?thesis
    by (elim disjE) (simp_all only: , simp_all)
qed

lemma and3_idem: "(v::u8) < 4 \<Longrightarrow> v AND 3 = v"
  by (simp add: and3_mod4 mod_word_less)

lemmas codec_defs =
  nextColourSeq_to_2bit_def nextColourSeq_from_2bit_def colour_index_def halfByteColour_def

lemma from_2bit_data: "nextColourSeq_from_2bit h p \<in> {BLUE, GREEN, CYAN, RED, MAGENTA}"
  using and3_cases [of h] by (cases p) (auto simp: codec_defs)

lemma from_2bit_differs: "nextColourSeq_from_2bit h p \<noteq> p"
  using and3_cases [of h] by (cases p) (auto simp: codec_defs)

lemma to_2bit_from_2bit:
  "nextColourSeq_to_2bit (nextColourSeq_from_2bit h p) p = (0, Some (h AND 3))"
  using and3_cases [of h] by (cases p) (auto simp: codec_defs)

section \<open>Facts about the encoder loop\<close>

lemma update5:
  "k + 5 \<le> length cs \<Longrightarrow>
   cs[k := a, k + 1 := b, k + 2 := c, k + 3 := d, k + 4 := e]
     = take k cs @ [a, b, c, d, e] @ drop (k + 5) cs"
  by (rule nth_equalityI) (auto simp: nth_append nth_list_update nth_Cons')

lemma initial_previous_in_range:
  "0 \<le> j \<Longrightarrow> j \<le> int (length cs) \<Longrightarrow>
   initial_previous cs j = Some (if j = 0 then DARK else cs ! nat (j - 1))"
  by (simp add: initial_previous_def read_seq_def)

lemma toColourSeq_loop_step:
  "0 \<le> j \<Longrightarrow> j < int (length cs) \<Longrightarrow>
   toColourSeq_loop (Suc n) b cs p j =
     toColourSeq_loop n b (cs[nat j := nextColourSeq_from_2bit (drop_bit (2 * n) b AND 3) p])
       (nextColourSeq_from_2bit (drop_bit (2 * n) b AND 3) p) (j + 1)"
  by (simp add: write_seq_def Let_def)

lemma toColourSeq_loop_4:
  assumes "0 \<le> j" "j + 4 \<le> int (length cs)"
  shows "toColourSeq_loop 4 b cs p j =
    (let c0 = nextColourSeq_from_2bit (drop_bit 6 b AND 3) p;
         c1 = nextColourSeq_from_2bit (drop_bit 4 b AND 3) c0;
         c2 = nextColourSeq_from_2bit (drop_bit 2 b AND 3) c1;
         c3 = nextColourSeq_from_2bit (b AND 3) c2
     in Some (cs[nat j := c0, nat j + 1 := c1, nat j + 2 := c2, nat j + 3 := c3], j + 4))"
  using assms
  by (simp add: eval_nat_numeral toColourSeq_loop_step Let_def nat_add_distrib
      del: toColourSeq_loop.simps(2))

lemma toColourSeq_uint8_in_range:
  assumes "0 \<le> j" "j + 5 \<le> int (length cs)"
  shows "toColourSeq_uint8 b cs j =
    (let p = (if j = 0 then DARK else cs ! nat (j - 1));
         c0 = nextColourSeq_from_2bit (drop_bit 6 b AND 3) p;
         c1 = nextColourSeq_from_2bit (drop_bit 4 b AND 3) c0;
         c2 = nextColourSeq_from_2bit (drop_bit 2 b AND 3) c1;
         c3 = nextColourSeq_from_2bit (b AND 3) c2
     in Some (take (nat j) cs @ [c0, c1, c2, c3, WHITE] @ drop (nat j + 5) cs, j + 5))"
proof -
  have a: "j \<le> int (length cs)" "j + 4 \<le> int (length cs)"
    using assms by simp_all
  have u: "nat j + 5 \<le> length cs" "nat (j + 4) = nat j + 4"
    using assms by simp_all
  show ?thesis
    unfolding toColourSeq_uint8_def initial_previous_in_range [OF assms(1) a(1)]
      toColourSeq_loop_4 [OF assms(1) a(2)]
    using assms update5 [OF u(1)]
    by (simp add: Let_def write_seq_def u(2))
qed

text \<open>
  The call is defined exactly when the five positions it writes are inside the array.
\<close>

lemma toColourSeq_loop_result:
  "toColourSeq_loop n b cs p j = Some (cs', j') \<Longrightarrow>
   length cs' = length cs \<and> j' = j + int n"
proof (induction n arbitrary: cs p j)
  case 0
  then show ?case by simp
next
  case (Suc n)
  then show ?case
    by (fastforce simp: write_seq_def Let_def split: if_splits)
qed

lemma toColourSeq_uint8_defined:
  "toColourSeq_uint8 b cs j \<noteq> None \<longleftrightarrow> 0 \<le> j \<and> j + 5 \<le> int (length cs)"
proof
  assume "0 \<le> j \<and> j + 5 \<le> int (length cs)"
  then show "toColourSeq_uint8 b cs j \<noteq> None"
    using toColourSeq_uint8_in_range [of j cs b] by (simp add: Let_def)
next
  assume d: "toColourSeq_uint8 b cs j \<noteq> None"
  then obtain p where p: "initial_previous cs j = Some p"
    by (auto simp: toColourSeq_uint8_def split: option.splits)
  then have j0: "0 \<le> j"
    by (auto simp: initial_previous_def read_seq_def split: if_splits)
  from d p obtain cs' j' where l: "toColourSeq_loop 4 b cs p j = Some (cs', j')"
    by (auto simp: toColourSeq_uint8_def split: option.splits)
  from toColourSeq_loop_result [OF l] have r: "length cs' = length cs" "j' = j + 4"
    by simp_all
  from d p l have "write_seq cs' j' WHITE \<noteq> None"
    by (auto simp: toColourSeq_uint8_def split: option.splits)
  with r have "j + 4 < int (length cs)"
    by (auto simp: write_seq_def split: if_splits)
  with j0 show "0 \<le> j \<and> j + 5 \<le> int (length cs)"
    by simp
qed

section \<open>Facts about the decoder loop\<close>

lemma to_2bit_code_cases:
  obtains (idle) "nextColourSeq_to_2bit c p = (- 1, None)"
  | (down) "nextColourSeq_to_2bit c p = (- 2, None)"
  | (mark1) "nextColourSeq_to_2bit c p = (1, None)"
  | (mark2) "nextColourSeq_to_2bit c p = (2, None)"
  | (data) h where "nextColourSeq_to_2bit c p = (0, Some h)"
  by (cases c; cases p) (auto simp: nextColourSeq_to_2bit_def Let_def)

lemma initial_previous_next:
  "0 \<le> j \<Longrightarrow> read_seq cs j = Some c \<Longrightarrow> initial_previous cs (j + 1) = Some c"
  by (simp add: initial_previous_def)

lemma loop_split:
  assumes "0 \<le> j" "initial_previous cs j = Some p"
    and "fromColourSeq_loop k cs p j out = Some (0, j', out')"
  shows "j' = j + int k \<and>
    (\<exists>p'. initial_previous cs j' = Some p' \<and>
       (\<forall>n. fromColourSeq_loop (k + n) cs p j out = fromColourSeq_loop n cs p' j' out'))"
  using assms
proof (induction k arbitrary: j p out)
  case 0
  then show ?case by simp
next
  case (Suc k)
  from Suc.prems(3) obtain c where c: "read_seq cs j = Some c"
    by (cases "read_seq cs j") simp_all
  have ip: "initial_previous cs (j + 1) = Some c"
    using Suc.prems(1) c by (rule initial_previous_next)
  have j1: "0 \<le> j + 1" using Suc.prems(1) by simp
  have step: "j' = j + int (Suc k) \<and>
      (\<exists>p'. initial_previous cs j' = Some p' \<and>
         (\<forall>n. fromColourSeq_loop (Suc k + n) cs p j out = fromColourSeq_loop n cs p' j' out'))"
    if run: "fromColourSeq_loop k cs c (j + 1) out2 = Some (0, j', out')"
      and unfold: "\<And>n. fromColourSeq_loop (Suc n) cs p j out = fromColourSeq_loop n cs c (j + 1) out2"
    for out2
  proof -
    from Suc.IH [OF j1 ip run] obtain p' where
      a: "j' = j + 1 + int k" and b: "initial_previous cs j' = Some p'"
      and d: "\<And>n. fromColourSeq_loop (k + n) cs c (j + 1) out2 = fromColourSeq_loop n cs p' j' out'"
      by blast
    have "fromColourSeq_loop (Suc k + n) cs p j out = fromColourSeq_loop n cs p' j' out'" for n
      using unfold [of "k + n"] d [of n] by simp
    with a b show ?thesis by simp
  qed
  show ?case
  proof (cases c p rule: to_2bit_code_cases)
    case idle
    show ?thesis
    proof (rule step)
      show "fromColourSeq_loop k cs c (j + 1) out = Some (0, j', out')"
        using Suc.prems(3) c idle by simp
      show "fromColourSeq_loop (Suc n) cs p j out = fromColourSeq_loop n cs c (j + 1) out" for n
        using c idle by simp
    qed
  next
    case (data h)
    show ?thesis
    proof (rule step)
      show "fromColourSeq_loop k cs c (j + 1) (push_bit 2 out OR h) = Some (0, j', out')"
        using Suc.prems(3) c data by simp
      show "fromColourSeq_loop (Suc n) cs p j out
          = fromColourSeq_loop n cs c (j + 1) (push_bit 2 out OR h)" for n
        using c data by simp
    qed
  next
    case down
    with Suc.prems(3) c show ?thesis by simp
  next
    case mark1
    with Suc.prems(3) c show ?thesis by simp
  next
    case mark2
    with Suc.prems(3) c show ?thesis by simp
  qed
qed

lemma loop_quiet:
  assumes "0 \<le> j" "initial_previous cs j = Some p"
    and "\<forall>i<k. transition_code cs (j + int i) = Some 0 \<or> transition_code cs (j + int i) = Some (- 1)"
  shows "\<exists>out'. fromColourSeq_loop k cs p j out = Some (0, j + int k, out')"
  using assms
proof (induction k arbitrary: j p out)
  case 0
  then show ?case by simp
next
  case (Suc k)
  from Suc.prems(3) have t0: "transition_code cs j = Some 0 \<or> transition_code cs j = Some (- 1)"
    by force
  then obtain c where c: "read_seq cs j = Some c"
    using Suc.prems(2) by (auto simp: transition_code_def split: option.splits)
  with t0 Suc.prems(2) have code: "fst (nextColourSeq_to_2bit c p) = 0 \<or> fst (nextColourSeq_to_2bit c p) = - 1"
    by (simp add: transition_code_def)
  have ip: "initial_previous cs (j + 1) = Some c"
    using Suc.prems(1) c by (rule initial_previous_next)
  have j1: "0 \<le> j + 1" using Suc.prems(1) by simp
  have rest: "\<forall>i<k. transition_code cs (j + 1 + int i) = Some 0 \<or> transition_code cs (j + 1 + int i) = Some (- 1)"
  proof (intro allI impI)
    fix i assume "i < k"
    then have "Suc i < Suc k" by simp
    with Suc.prems(3) have "transition_code cs (j + int (Suc i)) = Some 0 \<or> transition_code cs (j + int (Suc i)) = Some (- 1)"
      by blast
    then show "transition_code cs (j + 1 + int i) = Some 0 \<or> transition_code cs (j + 1 + int i) = Some (- 1)"
      by (simp add: add.commute add.left_commute)
  qed
  show ?case
  proof (cases c p rule: to_2bit_code_cases)
    case idle
    from Suc.IH [OF j1 ip rest, of out] idle c show ?thesis
      by (simp add: add.assoc)
  next
    case (data h)
    from Suc.IH [OF j1 ip rest, of "push_bit 2 out OR h"] data c show ?thesis
      by (simp add: add.assoc)
  next
    case down
    with code show ?thesis by simp
  next
    case mark1
    with code show ?thesis by simp
  next
    case mark2
    with code show ?thesis by simp
  qed
qed

lemma loop_cong:
  assumes "length cs = length cs'"
    and "\<forall>i. j \<le> int i \<and> int i < j + int n \<longrightarrow> cs ! i = cs' ! i"
  shows "fromColourSeq_loop n cs p j out = fromColourSeq_loop n cs' p j out"
  using assms
proof (induction n arbitrary: j p out)
  case 0
  then show ?case by simp
next
  case (Suc n)
  have r: "read_seq cs j = read_seq cs' j"
  proof (cases "0 \<le> j \<and> j < int (length cs)")
    case True
    then have "j \<le> int (nat j) \<and> int (nat j) < j + int (Suc n)" by simp
    with Suc.prems(2) have "cs ! nat j = cs' ! nat j" by blast
    with True Suc.prems(1) show ?thesis by (simp add: read_seq_def)
  next
    case False
    with Suc.prems(1) show ?thesis by (auto simp: read_seq_def)
  qed
  have "\<forall>i. j + 1 \<le> int i \<and> int i < j + 1 + int n \<longrightarrow> cs ! i = cs' ! i"
    using Suc.prems(2) by auto
  from Suc.IH [OF Suc.prems(1) this] have
    ih: "\<And>p out. fromColourSeq_loop n cs p (j + 1) out = fromColourSeq_loop n cs' p (j + 1) out"
    by blast
  show ?case
    by (simp add: r ih split: option.splits prod.splits)
qed

lemma get_uint8_unfold:
  "initial_previous cs j = Some p \<Longrightarrow>
   fromColourSeq_get_uint8 cs j = fromColourSeq_loop 5 cs p j 0"
  by (simp add: fromColourSeq_get_uint8_def)

lemma transition_quiet_initial:
  assumes "transition_code cs j = Some r"
  obtains p where "initial_previous cs j = Some p"
  using assms by (auto simp: transition_code_def split: option.splits)

lemma initial_previous_update:
  "int q \<noteq> i - 1 \<Longrightarrow> initial_previous (cs[q := m]) i = initial_previous cs i"
  by (auto simp: initial_previous_def read_seq_def)

lemma marker_code:
  "m = WHITE \<or> m = YELLOW \<Longrightarrow> m \<noteq> p \<Longrightarrow>
   nextColourSeq_to_2bit m p = (1, None) \<or> nextColourSeq_to_2bit m p = (2, None)"
  by (auto simp: nextColourSeq_to_2bit_def)

lemma loop_after_quiet:
  assumes "0 \<le> j"
    and "\<forall>i<k. transition_code cs (j + int i) = Some 0 \<or> transition_code cs (j + int i) = Some (- 1)"
    and "initial_previous cs j = Some p0"
  shows "\<exists>acc p. fromColourSeq_loop k cs p0 j 0 = Some (0, j + int k, acc) \<and>
     initial_previous cs (j + int k) = Some p \<and>
     (\<forall>n. fromColourSeq_loop (k + n) cs p0 j 0 = fromColourSeq_loop n cs p (j + int k) acc)"
proof -
  from loop_quiet [OF assms(1) assms(3) assms(2), of 0] obtain acc where
    acc: "fromColourSeq_loop k cs p0 j 0 = Some (0, j + int k, acc)"
    by blast
  from loop_split [OF assms(1) assms(3) acc] acc show ?thesis
    by blast
qed

lemma loop_no_marker:
  assumes "0 \<le> j" "initial_previous cs j = Some p"
    and "\<forall>i<n. \<exists>r. transition_code cs (j + int i) = Some r \<and> r \<noteq> 1 \<and> r \<noteq> 2"
  shows "\<exists>r j' out'. fromColourSeq_loop n cs p j out = Some (r, j', out') \<and> r \<noteq> 1"
  using assms
proof (induction n arbitrary: j p out)
  case 0
  then show ?case by simp
next
  case (Suc n)
  from Suc.prems(3) obtain r0 where t0: "transition_code cs j = Some r0" "r0 \<noteq> 1" "r0 \<noteq> 2"
    by force
  then obtain c where c: "read_seq cs j = Some c"
    using Suc.prems(2) by (auto simp: transition_code_def split: option.splits)
  with t0 Suc.prems(2) have code: "fst (nextColourSeq_to_2bit c p) \<noteq> 1" "fst (nextColourSeq_to_2bit c p) \<noteq> 2"
    by (auto simp: transition_code_def)
  have ip: "initial_previous cs (j + 1) = Some c"
    using Suc.prems(1) c by (rule initial_previous_next)
  have j1: "0 \<le> j + 1" using Suc.prems(1) by simp
  have rest: "\<forall>i<n. \<exists>r. transition_code cs (j + 1 + int i) = Some r \<and> r \<noteq> 1 \<and> r \<noteq> 2"
  proof (intro allI impI)
    fix i assume "i < n"
    then have "Suc i < Suc n" by simp
    with Suc.prems(3) have "\<exists>r. transition_code cs (j + int (Suc i)) = Some r \<and> r \<noteq> 1 \<and> r \<noteq> 2"
      by blast
    then show "\<exists>r. transition_code cs (j + 1 + int i) = Some r \<and> r \<noteq> 1 \<and> r \<noteq> 2"
      by (simp add: add.commute add.left_commute)
  qed
  show ?case
  proof (cases c p rule: to_2bit_code_cases)
    case idle
    from Suc.IH [OF j1 ip rest, of out] idle c show ?thesis
      by simp
  next
    case (data h)
    from Suc.IH [OF j1 ip rest, of "push_bit 2 out OR h"] data c show ?thesis
      by simp
  next
    case down
    with c show ?thesis by simp
  next
    case mark1
    with code show ?thesis by simp
  next
    case mark2
    with code show ?thesis by simp
  qed
qed

lemma all_below_5: "(\<forall>i<5. P i) = (P (0::nat) \<and> P 1 \<and> P 2 \<and> P 3 \<and> P 4)"
  by (simp add: eval_nat_numeral All_less_Suc) blast

section \<open>Facts about one encoded byte\<close>

lemma fromColourSeq_loop_data:
  "read_seq cs j = Some (nextColourSeq_from_2bit h p) \<Longrightarrow>
   fromColourSeq_loop (Suc n) cs p j out =
     fromColourSeq_loop n cs (nextColourSeq_from_2bit h p) (j + 1) (push_bit 2 out OR (h AND 3))"
  by (simp add: to_2bit_from_2bit)

lemma fromColourSeq_loop_white:
  "read_seq cs j = Some WHITE \<Longrightarrow>
   fromColourSeq_loop (Suc n) cs (nextColourSeq_from_2bit h p) j out = Some (1, j + 1, out)"
  using from_2bit_data [of h p] by (auto simp: nextColourSeq_to_2bit_def)

lemma below8: "n < (8::nat) \<Longrightarrow> n \<in> {0, 1, 2, 3, 4, 5, 6, 7}"
  by auto

lemma reassemble:
  "push_bit 2 (push_bit 2 (push_bit 2 (push_bit 2 0 OR (drop_bit 6 b AND 3)) OR (drop_bit 4 b AND 3))
      OR (drop_bit 2 b AND 3)) OR (b AND 3) = (b::u8)"
proof -
  have m: "(3::u8) = mask 2" by (simp add: mask_eq_exp_minus_1)
  show ?thesis
    unfolding m
  proof (rule bit_word_eqI)
    fix n assume "n < LENGTH(8)"
    then have "n < 8" by simp
    from below8 [OF this]
    show "bit (push_bit 2 (push_bit 2 (push_bit 2 (push_bit 2 0 OR (drop_bit 6 b AND mask 2)) OR (drop_bit 4 b AND mask 2))
      OR (drop_bit 2 b AND mask 2)) OR (b AND mask 2)) n = bit b n"
      by (elim insertE emptyE) (simp_all add: bit_simps)
  qed
qed

lemma and3_and3: "((h::u8) AND 3) AND 3 = h AND 3"
  by (simp add: and.assoc)

lemma decode_encoded_byte:
  assumes "0 \<le> j" "j + 5 \<le> int (length cs)"
    and "cs ! nat j = nextColourSeq_from_2bit (drop_bit 6 b AND 3) p"
    and "cs ! (nat j + 1) = nextColourSeq_from_2bit (drop_bit 4 b AND 3) (cs ! nat j)"
    and "cs ! (nat j + 2) = nextColourSeq_from_2bit (drop_bit 2 b AND 3) (cs ! (nat j + 1))"
    and "cs ! (nat j + 3) = nextColourSeq_from_2bit (b AND 3) (cs ! (nat j + 2))"
    and "cs ! (nat j + 4) = WHITE"
  shows "fromColourSeq_loop 5 cs p j 0 = Some (1, j + 5, b)"
proof -
  have rd: "read_seq cs (j + int i) = Some (cs ! (nat j + i))" if "i < 5" for i
    using assms(1,2) that by (simp add: read_seq_def nat_add_distrib)
  have e: "j = j + int 0" "j + 1 = j + int 1" "j + 1 + 1 = j + int 2"
    "j + 1 + 1 + 1 = j + int 3" "j + 1 + 1 + 1 + 1 = j + int 4"
    by simp_all
  have n0: "nat j = nat j + 0"
    by simp
  have r0: "read_seq cs j = Some (nextColourSeq_from_2bit (drop_bit 6 b AND 3) p)"
    by (subst e(1), subst rd, simp, subst n0 [symmetric], subst assms(3), rule refl)
  have r1: "read_seq cs (j + 1) = Some (nextColourSeq_from_2bit (drop_bit 4 b AND 3) (cs ! nat j))"
    by (subst e(2), subst rd, simp, subst assms(4), rule refl)
  have r2: "read_seq cs (j + 1 + 1) = Some (nextColourSeq_from_2bit (drop_bit 2 b AND 3) (cs ! (nat j + 1)))"
    by (subst e(3), subst rd, simp, subst assms(5), rule refl)
  have r3: "read_seq cs (j + 1 + 1 + 1) = Some (nextColourSeq_from_2bit (b AND 3) (cs ! (nat j + 2)))"
    by (subst e(4), subst rd, simp, subst assms(6), rule refl)
  have r4: "read_seq cs (j + 1 + 1 + 1 + 1) = Some WHITE"
    by (subst e(5), subst rd, simp, subst assms(7), rule refl)
  have "fromColourSeq_loop (Suc (Suc (Suc (Suc (Suc 0))))) cs p j 0 = Some (1, j + 1 + 1 + 1 + 1 + 1,
    push_bit 2 (push_bit 2 (push_bit 2 (push_bit 2 0 OR (drop_bit 6 b AND 3)) OR (drop_bit 4 b AND 3))
      OR (drop_bit 2 b AND 3)) OR (b AND 3))"
    apply (subst fromColourSeq_loop_data [OF r0])
    apply (subst assms(3) [symmetric])
    apply (subst fromColourSeq_loop_data [OF r1])
    apply (subst assms(4) [symmetric])
    apply (subst fromColourSeq_loop_data [OF r2])
    apply (subst assms(5) [symmetric])
    apply (subst fromColourSeq_loop_data [OF r3])
    apply (subst fromColourSeq_loop_white [OF r4])
    apply (simp only: and3_and3)
    done
  then show ?thesis
    by (simp only: reassemble) (simp add: eval_nat_numeral)
qed

lemma encoded_window:
  assumes "k + 5 \<le> length cs" "cs1 = take k cs @ [c0, c1, c2, c3, c4] @ drop (k + 5) cs"
  shows "length cs1 = length cs" "take k cs1 = take k cs"
    "cs1 ! k = c0" "cs1 ! (k + 1) = c1" "cs1 ! (k + 2) = c2" "cs1 ! (k + 3) = c3" "cs1 ! (k + 4) = c4"
  using assms by (simp_all add: nth_append)

lemma take_agree:
  "take n xs = take n ys \<Longrightarrow> i < n \<Longrightarrow> xs ! i = ys ! i"
  by (metis nth_take)

lemma round_trip_from:
  assumes "0 \<le> j" "j + 5 * int (length bs) \<le> int (length cs)"
  shows "\<exists>cs'. toColourSeq_bytes bs cs j = Some (cs', j + 5 * int (length bs)) \<and>
     length cs' = length cs \<and> take (nat j) cs' = take (nat j) cs \<and>
     fromColourSeq_bytes (length bs) cs' j =
       Some (map (\<lambda>(i, b). (1, j + 5 * (int i + 1), b)) (enumerate 0 bs))"
  using assms
proof (induction bs arbitrary: cs j)
  case Nil
  then show ?case by simp
next
  case (Cons b bs)
  define k where "k = nat j"
  define p where "p = (if j = 0 then DARK else cs ! nat (j - 1))"
  define c0 where "c0 = nextColourSeq_from_2bit (drop_bit 6 b AND 3) p"
  define c1 where "c1 = nextColourSeq_from_2bit (drop_bit 4 b AND 3) c0"
  define c2 where "c2 = nextColourSeq_from_2bit (drop_bit 2 b AND 3) c1"
  define c3 where "c3 = nextColourSeq_from_2bit (b AND 3) c2"
  define cs1 where "cs1 = take k cs @ [c0, c1, c2, c3, WHITE] @ drop (k + 5) cs"
  have j5: "j + 5 \<le> int (length cs)" and k5: "k + 5 \<le> length cs"
    using Cons.prems by (simp_all add: k_def)
  have enc: "toColourSeq_uint8 b cs j = Some (cs1, j + 5)"
    using toColourSeq_uint8_in_range [OF Cons.prems(1) j5, of b]
    by (simp add: Let_def cs1_def c0_def c1_def c2_def c3_def p_def k_def)
  note w = encoded_window [OF k5 cs1_def]
  have "0 \<le> j + 5" "j + 5 + 5 * int (length bs) \<le> int (length cs1)"
    using Cons.prems w(1) by simp_all
  from Cons.IH [OF this] obtain cs' where
    e': "toColourSeq_bytes bs cs1 (j + 5) = Some (cs', j + 5 + 5 * int (length bs))"
    and l': "length cs' = length cs1"
    and t': "take (nat (j + 5)) cs' = take (nat (j + 5)) cs1"
    and d': "fromColourSeq_bytes (length bs) cs' (j + 5) =
       Some (map (\<lambda>(i, b). (1, j + 5 + 5 * (int i + 1), b)) (enumerate 0 bs))"
    by blast
  have n5: "nat (j + 5) = k + 5"
    using Cons.prems(1) by (simp add: k_def)
  have agree: "cs' ! i = cs1 ! i" if "i < k + 5" for i
    using t' that unfolding n5 by (rule take_agree)
  have tk: "take k cs' = take k cs"
  proof -
    have "take k (take (k + 5) cs') = take k (take (k + 5) cs1)"
      using t' by (simp only: n5)
    then show ?thesis
      using w(2) by (simp add: min_def)
  qed
  have ip: "initial_previous cs' j = Some p"
  proof (cases "j = 0")
    case True
    then show ?thesis by (simp add: initial_previous_def p_def)
  next
    case False
    with Cons.prems(1) have lt: "nat (j - 1) < k"
      by (simp add: k_def)
    have "cs' ! nat (j - 1) = cs ! nat (j - 1)"
      using tk lt by (rule take_agree)
    with False Cons.prems(1) j5 l' w(1) show ?thesis
      by (simp add: initial_previous_def read_seq_def p_def)
  qed
  have el: "cs' ! k = c0" "cs' ! (k + 1) = c1" "cs' ! (k + 2) = c2" "cs' ! (k + 3) = c3"
    "cs' ! (k + 4) = WHITE"
    using agree [of k] agree [of "k + 1"] agree [of "k + 2"] agree [of "k + 3"] agree [of "k + 4"]
      w(3-7)
    by simp_all
  have j5': "j + 5 \<le> int (length cs')"
    using j5 l' w(1) by simp
  have "fromColourSeq_loop 5 cs' p j 0 = Some (1, j + 5, b)"
    by (rule decode_encoded_byte [OF Cons.prems(1) j5'])
      (simp_all only: k_def [symmetric] el c0_def c1_def c2_def c3_def)
  then have dec: "fromColourSeq_get_uint8 cs' j = Some (1, j + 5, b)"
    by (simp add: get_uint8_unfold [OF ip])
  have m: "map (\<lambda>(i, b). (1, j + 5 * (int i + 1), b)) (enumerate 0 (b # bs)) =
      (1, j + 5, b) # map (\<lambda>(i, b). (1, j + 5 + 5 * (int i + 1), b)) (enumerate 0 bs)"
    by (simp add: enumerate_Suc_eq [of 0] split_def algebra_simps)
  show ?case
  proof (intro exI [of _ cs'] conjI)
    show "toColourSeq_bytes (b # bs) cs j = Some (cs', j + 5 * int (length (b # bs)))"
      using enc e' by (simp add: algebra_simps)
    show "length cs' = length cs"
      using l' w(1) by simp
    show "take (nat j) cs' = take (nat j) cs"
      using tk by (simp add: k_def)
    show "fromColourSeq_bytes (length (b # bs)) cs' j =
        Some (map (\<lambda>(i, b). (1, j + 5 * (int i + 1), b)) (enumerate 0 (b # bs)))"
      unfolding m using dec d' by simp
  qed
qed

section \<open>Single transitions\<close>

text \<open>
  Claim C1 (round trip of one transition): for each of the eight previous colours \<open>p\<close>
  and each two-bit value \<open>v\<close> (that is \<open>v < 4\<close>), decoding the colour the encoder
  emits for \<open>v\<close> after \<open>p\<close>, against the same \<open>p\<close>, returns code 0 and stores exactly
  \<open>v\<close> in the output half nibble.
\<close>

theorem C1_half_nibble_round_trip:
  "v < 4 \<Longrightarrow> nextColourSeq_to_2bit (nextColourSeq_from_2bit v p) p = (0, Some v)"
  by (simp add: to_2bit_from_2bit and3_idem)

theorem C1_half_nibble_round_trip_witness:
  "(2::u8) < 4 \<and>
   nextColourSeq_from_2bit 2 MAGENTA = CYAN \<and>
   nextColourSeq_to_2bit (nextColourSeq_from_2bit 2 MAGENTA) MAGENTA = (0, Some 2)"
  using C1_half_nibble_round_trip [of 2 MAGENTA] by (simp add: codec_defs)

text \<open>
  Claim C3 (no repeat): for each previous colour \<open>p\<close> and each value \<open>v\<close> (all 256
  byte values, the two-bit ones among them), the colour the encoder returns is one of
  the five data colours Blue, Green, Cyan, Red, Magenta, and it is never \<open>p\<close>.
\<close>

theorem C3_encoder_never_repeats:
  "nextColourSeq_from_2bit v p \<in> {BLUE, GREEN, CYAN, RED, MAGENTA} \<and>
   nextColourSeq_from_2bit v p \<noteq> p"
  using from_2bit_data [of v p] from_2bit_differs [of v p] by simp

text \<open>
  Claim C6 (channel down): when the incoming colour is Dark and the previous colour
  \<open>p\<close> is not Dark, the decoder of one transition returns code -2 and stores no half
  nibble; the code is none of 0 (data), 1 and 2 (the markers).
\<close>

theorem C6_channel_down:
  "p \<noteq> DARK \<Longrightarrow> nextColourSeq_to_2bit DARK p = (- 2, None)"
  by (simp add: nextColourSeq_to_2bit_def)

theorem C6_channel_down_witness:
  "RED \<noteq> DARK \<and> nextColourSeq_to_2bit DARK RED = (- 2, None)"
  using C6_channel_down [of RED] by simp

text \<open>
  Claim C8 (idle): for each of the eight colours \<open>s\<close>, Dark among them, the decoder
  of one transition applied to incoming \<open>s\<close> and previous \<open>s\<close> returns code -1 and
  stores nothing. The comparison is the first test of the function, so neither the
  channel-down nor the marker nor the data branch is reached.
\<close>

theorem C8_idle: "nextColourSeq_to_2bit s s = (- 1, None)"
  by (simp add: nextColourSeq_to_2bit_def)

text \<open>
  Claim C10 (the guard): for every byte value \<open>v\<close> and every previous colour \<open>p\<close> the
  encoder returns what it returns for \<open>v mod 4\<close>; the index it reads the table of
  five data colours at is always inside the table, so no value of \<open>v\<close> makes the
  lookup fail.
\<close>

theorem C10_encoder_masks_value:
  "nextColourSeq_from_2bit v p = nextColourSeq_from_2bit (v mod 4) p \<and>
   colour_index v p < length halfByteColour"
proof -
  have "(v mod 4) AND 3 = (v AND 3) AND 3"
    by (simp only: and3_mod4)
  then have "(v mod 4) AND 3 = v AND 3"
    by (simp add: and.assoc)
  then have "nextColourSeq_from_2bit v p = nextColourSeq_from_2bit (v mod 4) p"
    by (simp add: nextColourSeq_from_2bit_def colour_index_def)
  moreover have "colour_index v p < length halfByteColour"
    by (simp add: colour_index_def halfByteColour_def)
  ultimately show ?thesis
    by simp
qed

section \<open>Bytes\<close>

text \<open>
  Claim C5 (encoding one byte): for every byte \<open>b\<close> and every index \<open>j\<close> that leaves
  room for five colours in the array (\<open>0 \<le> j\<close> and \<open>j + 5\<close> at most the capacity),
  \<^verbatim>\<open>toColourSeq_uint8\<close> writes exactly the five positions \<open>j .. j + 4\<close> and leaves
  the rest of the array as it was: the four two-bit chunks of \<open>b\<close>, the most
  significant first, each encoded against the running previous colour (the colour
  before position \<open>j\<close>, or Dark at \<open>j = 0\<close>, then each colour just emitted), followed
  by White. The index is advanced by exactly 5, and the previous colour the next call
  starts from is the White marker. By \<open>toColourSeq_uint8_defined\<close> these are all the
  indices at which the call is defined.
\<close>

theorem C5_encode_byte:
  assumes "0 \<le> j" "j + 5 \<le> int (length cs)"
  shows "toColourSeq_uint8 b cs j =
      (let p = (if j = 0 then DARK else cs ! nat (j - 1));
           c0 = nextColourSeq_from_2bit (drop_bit 6 b AND 3) p;
           c1 = nextColourSeq_from_2bit (drop_bit 4 b AND 3) c0;
           c2 = nextColourSeq_from_2bit (drop_bit 2 b AND 3) c1;
           c3 = nextColourSeq_from_2bit (b AND 3) c2
       in Some (take (nat j) cs @ [c0, c1, c2, c3, WHITE] @ drop (nat j + 5) cs, j + 5)) \<and>
    (\<exists>cs'. toColourSeq_uint8 b cs j = Some (cs', j + 5) \<and> length cs' = length cs \<and>
       initial_previous cs' (j + 5) = Some WHITE)"
proof -
  define p where "p = (if j = 0 then DARK else cs ! nat (j - 1))"
  define c0 where "c0 = nextColourSeq_from_2bit (drop_bit 6 b AND 3) p"
  define c1 where "c1 = nextColourSeq_from_2bit (drop_bit 4 b AND 3) c0"
  define c2 where "c2 = nextColourSeq_from_2bit (drop_bit 2 b AND 3) c1"
  define c3 where "c3 = nextColourSeq_from_2bit (b AND 3) c2"
  define cs1 where "cs1 = take (nat j) cs @ [c0, c1, c2, c3, WHITE] @ drop (nat j + 5) cs"
  have k5: "nat j + 5 \<le> length cs"
    using assms by simp
  note w = encoded_window [OF k5 cs1_def]
  have enc: "toColourSeq_uint8 b cs j = Some (cs1, j + 5)"
    using toColourSeq_uint8_in_range [OF assms, of b]
    by (simp add: Let_def cs1_def c0_def c1_def c2_def c3_def p_def)
  have "nat (j + 5 - 1) = nat j + 4"
    using assms(1) by simp
  then have "initial_previous cs1 (j + 5) = Some WHITE"
    using assms w(1,7) by (simp add: initial_previous_def read_seq_def)
  with enc w(1) have "\<exists>cs'. toColourSeq_uint8 b cs j = Some (cs', j + 5) \<and>
      length cs' = length cs \<and> initial_previous cs' (j + 5) = Some WHITE"
    by simp
  with toColourSeq_uint8_in_range [OF assms, of b] show ?thesis
    by (rule conjI)
qed

theorem C5_encode_byte_witness:
  "toColourSeq_uint8 0x49 [GREEN, CYAN, BLUE, GREEN, WHITE, DARK, DARK, DARK, DARK, DARK, DARK, DARK] 5
     = Some ([GREEN, CYAN, BLUE, GREEN, WHITE, GREEN, CYAN, BLUE, CYAN, WHITE, DARK, DARK], 10) \<and>
   initial_previous [GREEN, CYAN, BLUE, GREEN, WHITE, GREEN, CYAN, BLUE, CYAN, WHITE, DARK, DARK] 10
     = Some WHITE"
proof -
  let ?cs = "[GREEN, CYAN, BLUE, GREEN, WHITE, DARK, DARK, DARK, DARK, DARK, DARK, DARK]"
  have h: "(0::int) \<le> 5" "(5::int) + 5 \<le> int (length ?cs)"
    by simp_all
  have e: "nextColourSeq_from_2bit 1 WHITE = GREEN" "nextColourSeq_from_2bit 0 GREEN = CYAN"
    "nextColourSeq_from_2bit 2 CYAN = BLUE" "nextColourSeq_from_2bit 1 BLUE = CYAN"
    by code_simp+
  from C5_encode_byte [OF h, of "0x49"] obtain cs' where
    a: "toColourSeq_uint8 0x49 ?cs 5 =
      Some ([GREEN, CYAN, BLUE, GREEN, WHITE, GREEN, CYAN, BLUE, CYAN, WHITE, DARK, DARK], 10)"
    and b: "toColourSeq_uint8 0x49 ?cs 5 = Some (cs', 5 + 5)"
    and c: "initial_previous cs' (5 + 5) = Some WHITE"
    by (auto simp: Let_def e)
  from a b have "cs' = [GREEN, CYAN, BLUE, GREEN, WHITE, GREEN, CYAN, BLUE, CYAN, WHITE, DARK, DARK]"
    by simp
  with a c show ?thesis
    by simp
qed

text \<open>
  Claim C2 (round trip of bytes): encoding any list of bytes from index 0 (so from
  the previous colour Dark, each call starting from the marker the call before left)
  into an array with room for five colours per byte, then decoding from index 0 once
  per byte, succeeds at every call (return value 1, reached on the White marker),
  returns the bytes in their order, and leaves the index at 5, 10, 15 and so on
  after the calls. For the byte \<open>0x48\<close> the five colours are Green, Cyan, Blue, Green, White
  and the decoder returns \<open>0x48\<close> with the index at 5; for \<open>0x48, 0x49\<close> the ten
  colours decode to \<open>0x48\<close> (index 5) and \<open>0x49\<close> (index 10).
\<close>

theorem C2_bytes_round_trip:
  assumes "5 * length bs \<le> length cs"
  shows "\<exists>cs'. toColourSeq_bytes bs cs 0 = Some (cs', 5 * int (length bs)) \<and>
     fromColourSeq_bytes (length bs) cs' 0 =
       Some (map (\<lambda>(i, b). (1, 5 * (int i + 1), b)) (enumerate 0 bs))"
proof -
  have "(0::int) \<le> 0" "0 + 5 * int (length bs) \<le> int (length cs)"
    using assms by simp_all
  from round_trip_from [OF this] show ?thesis
    by auto
qed

theorem C2_bytes_round_trip_witness:
  "toColourSeq_bytes [0x48] (replicate 5 DARK) 0 = Some ([GREEN, CYAN, BLUE, GREEN, WHITE], 5) \<and>
   fromColourSeq_bytes 1 [GREEN, CYAN, BLUE, GREEN, WHITE] 0 = Some [(1, 5, 0x48)] \<and>
   toColourSeq_bytes [0x48, 0x49] (replicate 10 DARK) 0 =
     Some ([GREEN, CYAN, BLUE, GREEN, WHITE, GREEN, CYAN, BLUE, CYAN, WHITE], 10) \<and>
   fromColourSeq_bytes 2 [GREEN, CYAN, BLUE, GREEN, WHITE, GREEN, CYAN, BLUE, CYAN, WHITE] 0 =
     Some [(1, 5, 0x48), (1, 10, 0x49)]"
proof -
  have e1: "toColourSeq_bytes [0x48] (replicate 5 DARK) 0 = Some ([GREEN, CYAN, BLUE, GREEN, WHITE], 5)"
    by code_simp
  have e2: "toColourSeq_bytes [0x48, 0x49] (replicate 10 DARK) 0 =
     Some ([GREEN, CYAN, BLUE, GREEN, WHITE, GREEN, CYAN, BLUE, CYAN, WHITE], 10)"
    by code_simp
  have "5 * length [0x48 :: u8] \<le> length (replicate 5 DARK)"
    by simp
  from C2_bytes_round_trip [OF this] obtain cs1 where
    a1: "toColourSeq_bytes [0x48] (replicate 5 DARK) 0 = Some (cs1, 5 * int (length [0x48 :: u8]))"
    and b1: "fromColourSeq_bytes (length [0x48 :: u8]) cs1 0 =
      Some (map (\<lambda>(i, b). (1, 5 * (int i + 1), b)) (enumerate 0 [0x48]))"
    by blast
  from a1 e1 have "cs1 = [GREEN, CYAN, BLUE, GREEN, WHITE]"
    by (simp del: toColourSeq_bytes.simps)
  with b1 have d1: "fromColourSeq_bytes 1 [GREEN, CYAN, BLUE, GREEN, WHITE] 0 = Some [(1, 5, 0x48)]"
    by (simp del: fromColourSeq_bytes.simps)
  have "5 * length [0x48 :: u8, 0x49] \<le> length (replicate 10 DARK)"
    by simp
  from C2_bytes_round_trip [OF this] obtain cs2 where
    a2: "toColourSeq_bytes [0x48, 0x49] (replicate 10 DARK) 0 =
      Some (cs2, 5 * int (length [0x48 :: u8, 0x49]))"
    and b2: "fromColourSeq_bytes (length [0x48 :: u8, 0x49]) cs2 0 =
      Some (map (\<lambda>(i, b). (1, 5 * (int i + 1), b)) (enumerate 0 [0x48, 0x49]))"
    by blast
  from a2 e2 have "cs2 = [GREEN, CYAN, BLUE, GREEN, WHITE, GREEN, CYAN, BLUE, CYAN, WHITE]"
    by (simp del: toColourSeq_bytes.simps)
  with b2 have d2: "fromColourSeq_bytes 2 [GREEN, CYAN, BLUE, GREEN, WHITE, GREEN, CYAN, BLUE, CYAN, WHITE] 0 =
     Some [(1, 5, 0x48), (1, 10, 0x49)]"
    by (simp add: numeral_2_eq_2 del: fromColourSeq_bytes.simps)
  from e1 d1 e2 d2 show ?thesis
    by (intro conjI)
qed

section \<open>Decoding one byte\<close>

text \<open>
  Claim C4, as stated, gives \<^verbatim>\<open>fromColourSeq_get_uint8\<close> a budget of 8 transitions.
  The loop of the source runs 5 times, idle transitions included. On the sequence
  Green, Green, Cyan, Blue, Green, White (one repeated sample, four data transitions,
  then the marker) the call returns 0 with the index at 5 and never looks at the
  marker, the sixth transition, which a budget of 8 reaches: the same loop run with
  8 iterations returns 1.
\<close>

theorem C4_budget_counterexample:
  "fromColourSeq_get_uint8 [GREEN, GREEN, CYAN, BLUE, GREEN, WHITE] 0 = Some (0, 5, 0x48) \<and>
   fromColourSeq_loop 8 [GREEN, GREEN, CYAN, BLUE, GREEN, WHITE] DARK 0 0 = Some (1, 6, 0x48)"
  by code_simp

text \<open>
  Claim C4, amended: \<^verbatim>\<open>fromColourSeq_get_uint8\<close> examines at most 5 transitions
  per call. If the five transitions from the index on are all data or idle transitions
  (codes 0 and -1: no marker and no channel-down), the call returns 0, the framing
  failure, with the index advanced by 5; 0 is neither 1 (a byte received) nor -1
  (channel closed). If none of the five transitions is a marker (codes 1 and 2), the
  call returns a value other than 1, so a sequence with no marker never decodes as a
  success.
\<close>

theorem C4_budget_of_five:
  assumes "0 \<le> j"
  shows "((\<forall>i<5. transition_code cs (j + int i) = Some 0 \<or>
              transition_code cs (j + int i) = Some (- 1)) \<longrightarrow>
          (\<exists>out. fromColourSeq_get_uint8 cs j = Some (0, j + 5, out))) \<and>
         ((\<forall>i<5. \<exists>r. transition_code cs (j + int i) = Some r \<and> r \<noteq> 1 \<and> r \<noteq> 2) \<longrightarrow>
          (\<exists>r j' out. fromColourSeq_get_uint8 cs j = Some (r, j', out) \<and> r \<noteq> 1))"
proof (intro conjI impI)
  assume q: "\<forall>i<5. transition_code cs (j + int i) = Some 0 \<or>
      transition_code cs (j + int i) = Some (- 1)"
  then have "transition_code cs (j + int 0) = Some 0 \<or> transition_code cs (j + int 0) = Some (- 1)"
    by (metis zero_less_numeral)
  then obtain p where p: "initial_previous cs j = Some p"
    by (auto elim: transition_quiet_initial)
  from loop_quiet [OF assms p q, of 0]
  show "\<exists>out. fromColourSeq_get_uint8 cs j = Some (0, j + 5, out)"
    by (simp add: get_uint8_unfold [OF p])
next
  assume q: "\<forall>i<5. \<exists>r. transition_code cs (j + int i) = Some r \<and> r \<noteq> 1 \<and> r \<noteq> 2"
  then have "\<exists>r. transition_code cs (j + int 0) = Some r \<and> r \<noteq> 1 \<and> r \<noteq> 2"
    by (metis zero_less_numeral)
  then obtain p where p: "initial_previous cs j = Some p"
    by (auto elim: transition_quiet_initial)
  from loop_no_marker [OF assms p q, of 0]
  show "\<exists>r j' out. fromColourSeq_get_uint8 cs j = Some (r, j', out) \<and> r \<noteq> 1"
    by (simp only: get_uint8_unfold [OF p])
qed

theorem C4_budget_of_five_witness:
  "(\<exists>out. fromColourSeq_get_uint8 [WHITE, RED, MAGENTA, BLUE, BLUE, CYAN, WHITE] 1
      = Some (0, 1 + 5, out)) \<and>
   (\<exists>r j' out. fromColourSeq_get_uint8 [WHITE, RED, MAGENTA, BLUE, BLUE, CYAN, WHITE] 1
      = Some (r, j', out) \<and> r \<noteq> 1)"
proof -
  let ?cs = "[WHITE, RED, MAGENTA, BLUE, BLUE, CYAN, WHITE]"
  have t: "transition_code ?cs (1 + int 0) = Some 0" "transition_code ?cs (1 + int 1) = Some 0"
    "transition_code ?cs (1 + int 2) = Some 0" "transition_code ?cs (1 + int 3) = Some (- 1)"
    "transition_code ?cs (1 + int 4) = Some 0"
    by code_simp+
  have q1: "\<forall>i<5. transition_code ?cs (1 + int i) = Some 0 \<or>
      transition_code ?cs (1 + int i) = Some (- 1)"
    unfolding all_below_5 using t by simp
  have q2: "\<forall>i<5. \<exists>r. transition_code ?cs (1 + int i) = Some r \<and> r \<noteq> 1 \<and> r \<noteq> 2"
    unfolding all_below_5 using t by simp
  have "(0::int) \<le> 1"
    by simp
  from C4_budget_of_five [OF this, of ?cs] q1 q2 show ?thesis
    by blast
qed

text \<open>
  Claim C7 (channel closed): if the \<open>k\<close>-th transition of a call (\<open>k < 5\<close>, the
  transitions before it being data or idle, so that the loop reaches it) goes to Dark
  from a colour that is not Dark, \<^verbatim>\<open>fromColourSeq_get_uint8\<close> returns -1 at once,
  with the index just past the Dark position. The value -1 is handed to the caller
  and differs from 1 (a byte received) and from 0 (the budget exhausted).
\<close>

theorem C7_channel_closed:
  assumes "0 \<le> j" "k < 5"
    and "\<forall>i<k. transition_code cs (j + int i) = Some 0 \<or>
           transition_code cs (j + int i) = Some (- 1)"
    and "read_seq cs (j + int k) = Some DARK"
    and "initial_previous cs (j + int k) = Some p" "p \<noteq> DARK"
  shows "\<exists>out. fromColourSeq_get_uint8 cs j = Some (- 1, j + int k + 1, out)"
proof -
  obtain p0 where p0: "initial_previous cs j = Some p0"
  proof (cases k)
    case 0
    with assms(5) that show ?thesis by simp
  next
    case (Suc m)
    with assms(3) have "transition_code cs (j + int 0) = Some 0 \<or>
        transition_code cs (j + int 0) = Some (- 1)"
      by blast
    with that show ?thesis
      by (auto elim: transition_quiet_initial)
  qed
  from loop_after_quiet [OF assms(1) assms(3) p0] assms(5) obtain acc where
    run: "\<And>n. fromColourSeq_loop (k + n) cs p0 j 0 = fromColourSeq_loop n cs p (j + int k) acc"
    by auto
  from assms(2) obtain m where m: "5 = k + Suc m"
    by (metis add_Suc_right less_imp_Suc_add)
  have "fromColourSeq_get_uint8 cs j = fromColourSeq_loop (Suc m) cs p (j + int k) acc"
    using run [of "Suc m"] by (simp only: get_uint8_unfold [OF p0] m)
  also have "\<dots> = Some (- 1, j + int k + 1, acc)"
    using assms(4,6) by (simp add: nextColourSeq_to_2bit_def)
  finally show ?thesis by blast
qed

theorem C7_channel_closed_witness:
  "\<exists>out. fromColourSeq_get_uint8 [GREEN, CYAN, DARK, DARK, DARK] 0 = Some (- 1, 0 + int 2 + 1, out)"
proof -
  let ?cs = "[GREEN, CYAN, DARK, DARK, DARK]"
  have t: "transition_code ?cs (0 + int 0) = Some 0" "transition_code ?cs (0 + int 1) = Some 0"
    by code_simp+
  have q: "\<forall>i<2. transition_code ?cs (0 + int i) = Some 0 \<or>
      transition_code ?cs (0 + int i) = Some (- 1)"
    using t by (simp add: numeral_2_eq_2 All_less_Suc)
  have r: "read_seq ?cs (0 + int 2) = Some DARK" "initial_previous ?cs (0 + int 2) = Some CYAN"
    by code_simp+
  have "(0::int) \<le> 0" "(2::nat) < 5" "CYAN \<noteq> DARK"
    by simp_all
  from C7_channel_closed [OF this(1,2) q r this(3)] show ?thesis .
qed

text \<open>
  Claim C9 (the two markers): let the \<open>k\<close>-th transition of a call (\<open>k < 5\<close>, the
  transitions before it being data or idle) come from the colour \<open>p\<close>, and let \<open>acc\<close>
  be the byte accumulated over the \<open>k\<close> transitions before it. Whichever marker
  stands at that position, White or Yellow, as long as it differs from \<open>p\<close>,
  \<^verbatim>\<open>fromColourSeq_get_uint8\<close> returns 1 with the index just past the marker and
  the output \<open>acc\<close>: the same return value, index and byte for the two markers.
\<close>

theorem C9_markers_interchangeable:
  assumes "0 \<le> j" "k < 5" "j + int k < int (length cs)"
    and "\<forall>i<k. transition_code cs (j + int i) = Some 0 \<or>
           transition_code cs (j + int i) = Some (- 1)"
    and "initial_previous cs j = Some p0"
    and "initial_previous cs (j + int k) = Some p"
  shows "\<exists>acc. fromColourSeq_loop k cs p0 j 0 = Some (0, j + int k, acc) \<and>
     (\<forall>m. (m = WHITE \<or> m = YELLOW) \<and> m \<noteq> p \<longrightarrow>
        fromColourSeq_get_uint8 (cs[nat (j + int k) := m]) j = Some (1, j + int k + 1, acc))"
proof -
  from loop_quiet [OF assms(1) assms(5) assms(4), of 0] obtain acc where
    acc: "fromColourSeq_loop k cs p0 j 0 = Some (0, j + int k, acc)"
    by blast
  from assms(2) obtain n where n: "5 = k + Suc n"
    by (metis add_Suc_right less_imp_Suc_add)
  have "fromColourSeq_get_uint8 (cs[nat (j + int k) := m]) j = Some (1, j + int k + 1, acc)"
    if m: "m = WHITE \<or> m = YELLOW" "m \<noteq> p" for m
  proof -
    let ?cs = "cs[nat (j + int k) := m]"
    have p0': "initial_previous ?cs j = Some p0"
      using assms(1,5) by (simp add: initial_previous_update)
    have p': "initial_previous ?cs (j + int k) = Some p"
      using assms(1,6) by (simp add: initial_previous_update)
    have "\<forall>i. j \<le> int i \<and> int i < j + int k \<longrightarrow> ?cs ! i = cs ! i"
      using assms(1) by auto
    then have "fromColourSeq_loop k ?cs p0 j 0 = fromColourSeq_loop k cs p0 j 0"
      by (intro loop_cong) simp_all
    with acc have acc': "fromColourSeq_loop k ?cs p0 j 0 = Some (0, j + int k, acc)"
      by simp
    from loop_split [OF assms(1) p0' acc'] obtain p'' where
      q1: "initial_previous ?cs (j + int k) = Some p''"
      and q2: "\<And>n. fromColourSeq_loop (k + n) ?cs p0 j 0 = fromColourSeq_loop n ?cs p'' (j + int k) acc"
      by blast
    from q1 p' have "p'' = p"
      by simp
    with q2 [of "Suc n"] have run: "fromColourSeq_loop (k + Suc n) ?cs p0 j 0
        = fromColourSeq_loop (Suc n) ?cs p (j + int k) acc"
      by (simp only:)
    have r: "read_seq ?cs (j + int k) = Some m"
      using assms(1,3) by (simp add: read_seq_def)
    have "fromColourSeq_get_uint8 ?cs j = fromColourSeq_loop (Suc n) ?cs p (j + int k) acc"
      using run by (simp only: get_uint8_unfold [OF p0'] n)
    also have "\<dots> = Some (1, j + int k + 1, acc)"
      using marker_code [OF m] r by auto
    finally show ?thesis .
  qed
  with acc show ?thesis by blast
qed

theorem C9_markers_interchangeable_witness:
  "fromColourSeq_get_uint8 [GREEN, CYAN, BLUE, GREEN, WHITE] 0 = Some (1, 5, 0x48) \<and>
   fromColourSeq_get_uint8 [GREEN, CYAN, BLUE, GREEN, YELLOW] 0 = Some (1, 5, 0x48)"
proof -
  let ?cs = "[GREEN, CYAN, BLUE, GREEN, DARK]"
  have t: "transition_code ?cs (0 + int 0) = Some 0" "transition_code ?cs (0 + int 1) = Some 0"
    "transition_code ?cs (0 + int 2) = Some 0" "transition_code ?cs (0 + int 3) = Some 0"
    by code_simp+
  have q: "\<forall>i<4. transition_code ?cs (0 + int i) = Some 0 \<or>
      transition_code ?cs (0 + int i) = Some (- 1)"
    using t by (simp add: eval_nat_numeral All_less_Suc)
  have i: "initial_previous ?cs 0 = Some DARK" "initial_previous ?cs (0 + int 4) = Some GREEN"
    by code_simp+
  have a: "fromColourSeq_loop 4 ?cs DARK 0 0 = Some (0, 4, 0x48)"
    by code_simp
  have h: "(0::int) \<le> 0" "(4::nat) < 5" "0 + int 4 < int (length ?cs)"
    by simp_all
  from C9_markers_interchangeable [OF h q i] a
  have "\<forall>m. (m = WHITE \<or> m = YELLOW) \<and> m \<noteq> GREEN \<longrightarrow>
      fromColourSeq_get_uint8 (?cs[nat (0 + int 4) := m]) 0 = Some (1, 0 + int 4 + 1, 0x48)"
    by (simp del: fromColourSeq_loop.simps)
  then have "fromColourSeq_get_uint8 (?cs[nat (0 + int 4) := WHITE]) 0 = Some (1, 0 + int 4 + 1, 0x48)"
    and "fromColourSeq_get_uint8 (?cs[nat (0 + int 4) := YELLOW]) 0 = Some (1, 0 + int 4 + 1, 0x48)"
    by simp_all
  then show ?thesis
    by (simp add: eval_nat_numeral)
qed

end
